theory Spec2Isabelle
  imports Main
begin

section \<open>The sample operator: data model\<close>

text \<open>
  The operator lives in \<^verbatim>\<open>src/internal/operators/sample.ts\<close>. The class
  \<^verbatim>\<open>SampleSubscriber\<close> declares two fields of its own, \<^verbatim>\<open>value: T | undefined\<close> and
  \<^verbatim>\<open>hasValue: boolean = false\<close>, and uses the inherited field \<^verbatim>\<open>destination\<close>, on which it
  only ever calls \<^verbatim>\<open>next\<close>.

  A run-time value of type \<^verbatim>\<open>T | undefined\<close> is \<^verbatim>\<open>undefined\<close>, \<^verbatim>\<open>null\<close> or some other
  value; the element type \<^verbatim>\<open>T\<close> may itself contain \<^verbatim>\<open>undefined\<close> and \<^verbatim>\<open>null\<close>.
\<close>

datatype 'a js_value = Undefined | Null | Defined 'a

text \<open>The three signals a producer can deliver to a consumer.\<close>

datatype ('a, 'e) notification = Next 'a | Error 'e | Complete

text \<open>
  The downstream consumer is an opaque sink. It is represented by what it has been sent:
  the field \<open>destination\<close> is the list of the calls made on it so far, oldest first.
\<close>

record ('a, 'e) SampleSubscriber =
  "value" :: "'a js_value"
  hasValue :: bool
  destination :: "('a js_value, 'e) notification list"

text \<open>
  \<^verbatim>\<open>new SampleSubscriber(subscriber)\<close>: the field \<^verbatim>\<open>value\<close> has no initialiser, so it
  starts as \<^verbatim>\<open>undefined\<close>; \<^verbatim>\<open>hasValue\<close> starts as \<^verbatim>\<open>false\<close>.
\<close>

definition SampleSubscriber_new ::
  "('a js_value, 'e) notification list \<Rightarrow> ('a, 'e) SampleSubscriber" where
  "SampleSubscriber_new subscriber =
     \<lparr>value = Undefined, hasValue = False, destination = subscriber\<rparr>"

text \<open>
  \<^verbatim>\<open>destination.next(v)\<close> for a downstream consumer that only records what it receives.
\<close>

definition destination_next ::
  "'a js_value \<Rightarrow> ('a, 'e) SampleSubscriber \<Rightarrow> ('a, 'e) SampleSubscriber" where
  "destination_next v s = s\<lparr>destination := destination s @ [Next v]\<rparr>"

section \<open>The handlers of SampleSubscriber\<close>

text \<open>
  \<^verbatim>\<open>protected _next(value: T) { this.value = value; this.hasValue = true; }\<close>
\<close>

definition SampleSubscriber_next ::
  "'a js_value \<Rightarrow> ('a, 'e) SampleSubscriber \<Rightarrow> ('a, 'e) SampleSubscriber" where
  "SampleSubscriber_next v s = (s\<lparr>value := v\<rparr>)\<lparr>hasValue := True\<rparr>"

text \<open>
  \<^verbatim>\<open>emitValue() { if (this.hasValue) { this.hasValue = false; this.destination.next(this.value); } }\<close>

  The call \<^verbatim>\<open>this.destination.next\<close> runs the consumer's code synchronously, and that
  code may call back into the subscriber. The consumer's \<^verbatim>\<open>next\<close> is therefore the
  parameter \<open>dnext\<close>: it receives the value and the subscriber as it stands at the moment
  of the call, and returns the subscriber as it stands when the call returns.
\<close>

definition emitValue ::
  "('a js_value \<Rightarrow> ('a, 'e) SampleSubscriber \<Rightarrow> ('a, 'e) SampleSubscriber) \<Rightarrow>
   ('a, 'e) SampleSubscriber \<Rightarrow> ('a, 'e) SampleSubscriber" where
  "emitValue dnext s =
     (if hasValue s
      then (let s' = s\<lparr>hasValue := False\<rparr> in dnext (value s') s')
      else s)"

text \<open>\<^verbatim>\<open>notifyNext(): void { this.emitValue(); }\<close>\<close>

definition notifyNext ::
  "('a js_value \<Rightarrow> ('a, 'e) SampleSubscriber \<Rightarrow> ('a, 'e) SampleSubscriber) \<Rightarrow>
   ('a, 'e) SampleSubscriber \<Rightarrow> ('a, 'e) SampleSubscriber" where
  "notifyNext dnext s = emitValue dnext s"

text \<open>\<^verbatim>\<open>notifyComplete(): void { this.emitValue(); }\<close>\<close>

definition notifyComplete ::
  "('a js_value \<Rightarrow> ('a, 'e) SampleSubscriber \<Rightarrow> ('a, 'e) SampleSubscriber) \<Rightarrow>
   ('a, 'e) SampleSubscriber \<Rightarrow> ('a, 'e) SampleSubscriber" where
  "notifyComplete dnext s = emitValue dnext s"

section \<open>Runs of the state machine\<close>

text \<open>
  The signals the class handles with code of its own: a value from the source
  (\<^verbatim>\<open>_next\<close>), a value from the notifier (\<^verbatim>\<open>notifyNext\<close>, which takes no argument, so
  the notifier's value is dropped at the call) and the notifier's completion
  (\<^verbatim>\<open>notifyComplete\<close>).
\<close>

datatype ('a, 'n) signal = SourceNext "'a js_value" | NotifierNext 'n | NotifierComplete

fun handle ::
  "('a, 'n) signal \<Rightarrow> ('a, 'e) SampleSubscriber \<Rightarrow> ('a, 'e) SampleSubscriber" where
  "handle (SourceNext v) s = SampleSubscriber_next v s"
| "handle (NotifierNext x) s = notifyNext destination_next s"
| "handle NotifierComplete s = notifyComplete destination_next s"

fun run ::
  "('a, 'e) SampleSubscriber \<Rightarrow> ('a, 'n) signal list \<Rightarrow> ('a, 'e) SampleSubscriber" where
  "run s [] = s"
| "run s (e # es) = run (handle e s) es"

text \<open>What the downstream consumer is sent while one signal is handled.\<close>

definition emitted ::
  "('a, 'e) SampleSubscriber \<Rightarrow> ('a, 'n) signal \<Rightarrow> ('a js_value, 'e) notification list" where
  "emitted s e = drop (length (destination s)) (destination (handle e s))"

fun is_SourceNext :: "('a, 'n) signal \<Rightarrow> bool" where
  "is_SourceNext (SourceNext v) = True"
| "is_SourceNext (NotifierNext x) = False"
| "is_SourceNext NotifierComplete = False"

subsection \<open>The history of a run\<close>

text \<open>
  The source values received since the last emission (or since the start), oldest first.
  This is a history variable: it is not state of the program. After a signal whose
  handling sent something downstream it is empty; a source value is appended to it; any
  other signal leaves it as it is.
\<close>

definition track ::
  "('a, 'e) SampleSubscriber \<Rightarrow> ('a, 'n) signal \<Rightarrow> 'a js_value list \<Rightarrow> 'a js_value list" where
  "track s e h =
     (case emitted s e of
        [] \<Rightarrow> (case e of SourceNext v \<Rightarrow> h @ [v] | NotifierNext x \<Rightarrow> h | NotifierComplete \<Rightarrow> h)
      | n # ns \<Rightarrow> [])"

fun received_since_emission ::
  "('a, 'e) SampleSubscriber \<Rightarrow> ('a, 'n) signal list \<Rightarrow> 'a js_value list \<Rightarrow> 'a js_value list" where
  "received_since_emission s [] h = h"
| "received_since_emission s (e # es) h = received_since_emission (handle e s) es (track s e h)"

definition most_recent :: "'a list \<Rightarrow> 'a option" where
  "most_recent h = (case h of [] \<Rightarrow> None | v # vs \<Rightarrow> Some (last (v # vs)))"

text \<open>The latched value, when the flag says there is one.\<close>

definition latched :: "('a, 'e) SampleSubscriber \<Rightarrow> 'a js_value option" where
  "latched s = (if hasValue s then Some (value s) else None)"

text \<open>
  The invariant of the data model, for a subscriber \<open>s\<close> and the history \<open>h\<close> of the source
  values received and not yet followed by an emission.
\<close>

definition latch_invariant :: "('a, 'e) SampleSubscriber \<Rightarrow> 'a js_value list \<Rightarrow> bool" where
  "latch_invariant s h = ((hasValue s \<longleftrightarrow> h \<noteq> []) \<and> (hasValue s \<longrightarrow> value s = last h))"

subsection \<open>Emissions caused by the notifier's completion\<close>

fun is_NotifierComplete :: "('a, 'n) signal \<Rightarrow> bool" where
  "is_NotifierComplete (SourceNext v) = False"
| "is_NotifierComplete (NotifierNext x) = False"
| "is_NotifierComplete NotifierComplete = True"

text \<open>What the downstream consumer is sent, during a run, by the handling of completions.\<close>

fun completion_emitted ::
  "('a, 'e) SampleSubscriber \<Rightarrow> ('a, 'n) signal list \<Rightarrow> ('a js_value, 'e) notification list" where
  "completion_emitted s [] = []"
| "completion_emitted s (e # es) =
     (if is_NotifierComplete e then emitted s e else []) @ completion_emitted (handle e s) es"

text \<open>
  Modelled from the spec: the end of the notifier's subscription. In the repository the
  notifier's signals reach the subscriber through \<^verbatim>\<open>SimpleInnerSubscriber\<close>
  (\<^verbatim>\<open>../innerSubscribe\<close>), which is not among the source files. The specification says
  (4.2): when the notifier completes, the emission routine is called exactly once, then
  the notifier subscription ends, and no further sampling can occur since there is no
  longer a notifier to trigger it. The source's values are latched as before.
\<close>

record ('a, 'e) inner_subscription =
  parent :: "('a, 'e) SampleSubscriber"
  ended :: bool

definition inner_subscription_new ::
  "('a js_value, 'e) notification list \<Rightarrow> ('a, 'e) inner_subscription" where
  "inner_subscription_new d = \<lparr>parent = SampleSubscriber_new d, ended = False\<rparr>"

fun deliver ::
  "('a, 'n) signal \<Rightarrow> ('a, 'e) inner_subscription \<Rightarrow> ('a, 'e) inner_subscription" where
  "deliver (SourceNext v) p = p\<lparr>parent := SampleSubscriber_next v (parent p)\<rparr>"
| "deliver (NotifierNext x) p =
     (if ended p then p else p\<lparr>parent := notifyNext destination_next (parent p)\<rparr>)"
| "deliver NotifierComplete p =
     (if ended p then p
      else p\<lparr>parent := notifyComplete destination_next (parent p), ended := True\<rparr>)"

fun deliver_all ::
  "('a, 'e) inner_subscription \<Rightarrow> ('a, 'n) signal list \<Rightarrow> ('a, 'e) inner_subscription" where
  "deliver_all p [] = p"
| "deliver_all p (e # es) = deliver_all (deliver e p) es"

text \<open>What the downstream consumer is sent while one signal is delivered.\<close>

definition sent ::
  "('a, 'e) inner_subscription \<Rightarrow> ('a, 'n) signal \<Rightarrow> ('a js_value, 'e) notification list" where
  "sent p e = drop (length (destination (parent p))) (destination (parent (deliver e p)))"

text \<open>
  What the downstream consumer is sent, over a whole subscription, by the delivery of the
  notifier's completions.
\<close>

fun completion_sent ::
  "('a, 'e) inner_subscription \<Rightarrow> ('a, 'n) signal list \<Rightarrow> ('a js_value, 'e) notification list" where
  "completion_sent p [] = []"
| "completion_sent p (e # es) =
     (if is_NotifierComplete e then sent p e else []) @ completion_sent (deliver e p) es"

subsection \<open>A consumer that calls back\<close>

text \<open>
  A downstream consumer whose \<^verbatim>\<open>next\<close> records the value and then, before it returns,
  makes the notifier tick (for instance by pushing into a subject that is the notifier).
  The tick runs \<^verbatim>\<open>notifyNext\<close> on the same subscriber, whose destination is the same
  consumer; \<open>n\<close> bounds how deep the calls nest.
\<close>

primrec reentrant_consumer ::
  "nat \<Rightarrow> 'a js_value \<Rightarrow> ('a, 'e) SampleSubscriber \<Rightarrow> ('a, 'e) SampleSubscriber" where
  "reentrant_consumer 0 v s = destination_next v s"
| "reentrant_consumer (Suc n) v s = notifyNext (reentrant_consumer n) (destination_next v s)"

subsection \<open>The notifier's values\<close>

text \<open>A signal with the value the notifier carried removed.\<close>

fun erase :: "('a, 'n) signal \<Rightarrow> ('a, unit) signal" where
  "erase (SourceNext v) = SourceNext v"
| "erase (NotifierNext x) = NotifierNext ()"
| "erase NotifierComplete = NotifierComplete"

section \<open>Errors and the source's completion\<close>

text \<open>
  Modelled from the spec: the handling of an error from either producer and of the
  source's completion. In the repository this is the code of the base classes
  \<^verbatim>\<open>Subscriber\<close> and \<^verbatim>\<open>SimpleOuterSubscriber\<close> and of \<^verbatim>\<open>SimpleInnerSubscriber\<close>
  (\<^verbatim>\<open>../Subscriber\<close>, \<^verbatim>\<open>../innerSubscribe\<close>), which \<^verbatim>\<open>sample.ts\<close> imports and which are
  not among the source files; \<^verbatim>\<open>SampleSubscriber\<close> overrides none of \<^verbatim>\<open>_error\<close>,
  \<^verbatim>\<open>_complete\<close> and \<^verbatim>\<open>notifyError\<close>. The specification says (4.2, 7):
  \<^item> an error from either the source or the notifier is forwarded to the downstream
    consumer, verbatim and immediately, and terminates the whole combinator;
  \<^item> the source's completion is forwarded to the downstream consumer; the state machine
    itself only reacts to next signals from the source;
  \<^item> whether the source's completion ends the sampling is left to the subscription
    engine. It is the parameter \<open>teardown\<close> of \<open>step\<close>, and nothing proved below depends
    on its value.
  A terminated combinator handles no further signal. What a producer itself promises
  (no signal after its own error or completion) is not built in: the properties below
  are proved for every sequence of signals.
\<close>

record ('a, 'e) combinator =
  subscriber :: "('a, 'e) SampleSubscriber"
  terminated :: bool

definition combinator_new ::
  "('a js_value, 'e) notification list \<Rightarrow> ('a, 'e) combinator" where
  "combinator_new d = \<lparr>subscriber = SampleSubscriber_new d, terminated = False\<rparr>"

datatype ('a, 'n, 'e) upstream =
  Source "('a js_value, 'e) notification" | Notifier "('n, 'e) notification"

text \<open>
  Modelled from the spec: \<^verbatim>\<open>destination.error(err)\<close> and \<^verbatim>\<open>destination.complete()\<close>, the
  calls by which the base classes forward an error and a completion, for a downstream
  consumer that only records what it receives.
\<close>

definition destination_error ::
  "'e \<Rightarrow> ('a, 'e) SampleSubscriber \<Rightarrow> ('a, 'e) SampleSubscriber" where
  "destination_error err s = s\<lparr>destination := destination s @ [Error err]\<rparr>"

definition destination_complete ::
  "('a, 'e) SampleSubscriber \<Rightarrow> ('a, 'e) SampleSubscriber" where
  "destination_complete s = s\<lparr>destination := destination s @ [Complete]\<rparr>"

text \<open>
  Modelled from the spec: what each signal does to a combinator that has not terminated.
  The three signals the class handles itself go to its own handlers above; an error
  from either producer is forwarded and terminates; the source's completion is
  forwarded and leaves the latch alone.
\<close>

fun dispatch ::
  "bool \<Rightarrow> ('a, 'n, 'e) upstream \<Rightarrow> ('a, 'e) combinator \<Rightarrow> ('a, 'e) combinator" where
  "dispatch teardown (Source (Next v)) c =
     c\<lparr>subscriber := SampleSubscriber_next v (subscriber c)\<rparr>"
| "dispatch teardown (Source (Error err)) c =
     c\<lparr>subscriber := destination_error err (subscriber c), terminated := True\<rparr>"
| "dispatch teardown (Source Complete) c =
     c\<lparr>subscriber := destination_complete (subscriber c), terminated := teardown\<rparr>"
| "dispatch teardown (Notifier (Next x)) c =
     c\<lparr>subscriber := notifyNext destination_next (subscriber c)\<rparr>"
| "dispatch teardown (Notifier (Error err)) c =
     c\<lparr>subscriber := destination_error err (subscriber c), terminated := True\<rparr>"
| "dispatch teardown (Notifier Complete) c =
     c\<lparr>subscriber := notifyComplete destination_next (subscriber c)\<rparr>"

text \<open>
  Modelled from the spec: a terminated combinator ignores every signal.
\<close>

definition step ::
  "bool \<Rightarrow> ('a, 'n, 'e) upstream \<Rightarrow> ('a, 'e) combinator \<Rightarrow> ('a, 'e) combinator" where
  "step teardown ev c = (if terminated c then c else dispatch teardown ev c)"

fun run_all ::
  "bool \<Rightarrow> ('a, 'e) combinator \<Rightarrow> ('a, 'n, 'e) upstream list \<Rightarrow> ('a, 'e) combinator" where
  "run_all teardown c [] = c"
| "run_all teardown c (ev # evs) = run_all teardown (step teardown ev c) evs"

text \<open>What the downstream consumer has been sent by the end of a run.\<close>

definition observed ::
  "bool \<Rightarrow> ('a, 'e) combinator \<Rightarrow> ('a, 'n, 'e) upstream list \<Rightarrow>
   ('a js_value, 'e) notification list" where
  "observed teardown c evs = destination (subscriber (run_all teardown c evs))"

fun is_Next :: "('a, 'e) notification \<Rightarrow> bool" where
  "is_Next (Next v) = True"
| "is_Next (Error err) = False"
| "is_Next Complete = False"

text \<open>The signals that run the emission routine: a notifier tick and its completion.\<close>

fun is_trigger :: "('a, 'n, 'e) upstream \<Rightarrow> bool" where
  "is_trigger (Notifier (Next x)) = True"
| "is_trigger (Notifier Complete) = True"
| "is_trigger (Notifier (Error err)) = False"
| "is_trigger (Source n) = False"

fun is_SourceValue :: "('a, 'n, 'e) upstream \<Rightarrow> bool" where
  "is_SourceValue (Source (Next v)) = True"
| "is_SourceValue (Source (Error err)) = False"
| "is_SourceValue (Source Complete) = False"
| "is_SourceValue (Notifier n) = False"

subsection \<open>Subscription\<close>

text \<open>
  \<^verbatim>\<open>call(subscriber, source)\<close> creates the subscriber, subscribes it to the source, and
  only then subscribes to the notifier:
  \<^verbatim>\<open>
  const sampleSubscriber = new SampleSubscriber(subscriber);
  const subscription = source.subscribe(sampleSubscriber);
  subscription.add(innerSubscribe(this.notifier, new SimpleInnerSubscriber(sampleSubscriber)));
  \<close>
  The two producers are parameters. A producer may deliver signals synchronously, from
  inside the call that subscribes to it: \<open>source\<close> lists the signals the source delivers
  that way (values, and possibly an error or its completion), \<open>notifier\<close> the signals the
  notifier delivers that way. What an error and the source's completion do is the part
  modelled from the specification above, so \<open>call\<close> has the parameter \<open>teardown\<close> too.
  The parameter \<^verbatim>\<open>subscriber\<close> is written \<open>subscriber'\<close>, as the name is a field here.
\<close>

definition call ::
  "bool \<Rightarrow> ('a js_value, 'e) notification list \<Rightarrow> ('a js_value, 'e) notification list \<Rightarrow>
   ('n, 'e) notification list \<Rightarrow> ('a, 'e) combinator" where
  "call teardown subscriber' source notifier =
     (let sampleSubscriber = combinator_new subscriber';
          subscription =
            run_all teardown sampleSubscriber (map Source source :: ('a, 'n, 'e) upstream list)
      in run_all teardown subscription (map Notifier notifier))"

section \<open>Basic facts about the handlers\<close>

lemma emitValue_recording:
  "emitValue destination_next s =
     (if hasValue s
      then s\<lparr>hasValue := False, destination := destination s @ [Next (value s)]\<rparr>
      else s)"
  by (simp add: emitValue_def destination_next_def Let_def)

lemma SampleSubscriber_next_fields:
  "value (SampleSubscriber_next v s) = v"
  "hasValue (SampleSubscriber_next v s)"
  "destination (SampleSubscriber_next v s) = destination s"
  by (simp_all add: SampleSubscriber_next_def)

lemma notifyNext_recording: "notifyNext destination_next s = emitValue destination_next s"
  by (simp add: notifyNext_def)

lemma notifyComplete_recording:
  "notifyComplete destination_next s = emitValue destination_next s"
  by (simp add: notifyComplete_def)

lemmas handler_simps =
  SampleSubscriber_next_fields notifyNext_recording notifyComplete_recording
  emitValue_recording

lemma emitted_SourceNext: "emitted s (SourceNext v) = []"
  by (simp add: emitted_def handler_simps)

lemma emitted_NotifierNext:
  "emitted s (NotifierNext x) = (if hasValue s then [Next (value s)] else [])"
  by (simp add: emitted_def handler_simps)

lemma emitted_NotifierComplete:
  "emitted s NotifierComplete = (if hasValue s then [Next (value s)] else [])"
  by (simp add: emitted_def handler_simps)

lemma run_append: "run s (es @ fs) = run (run s es) fs"
  by (induction es arbitrary: s) simp_all

lemma run_snoc: "run s (es @ [e]) = handle e (run s es)"
  by (simp add: run_append)

text \<open>
  The scenario of the specification: the source emits 1, the notifier ticks, the source
  emits 2, the notifier ticks. The downstream consumer is sent 1 and then 2.
\<close>

lemma sample_scenario:
  "destination
     (run (SampleSubscriber_new ([] :: (nat js_value, unit) notification list))
        [SourceNext (Defined 1), NotifierNext (), SourceNext (Defined 2), NotifierNext ()])
   = [Next (Defined 1), Next (Defined 2)]"
  by (simp add: SampleSubscriber_new_def handler_simps)

section \<open>Ticks without a fresh value\<close>

lemma stale_tick_noop: "\<not> hasValue s \<Longrightarrow> handle (NotifierNext x) s = s"
  by (simp add: handler_simps)

lemma hasValue_after_tick: "\<not> hasValue (handle (NotifierNext x) s)"
  by (simp add: handler_simps)

lemma run_without_source:
  "\<forall>e \<in> set es. \<not> is_SourceNext e \<Longrightarrow> \<not> hasValue s \<Longrightarrow> run s es = s"
proof (induction es arbitrary: s)
  case Nil
  show ?case by simp
next
  case (Cons e es)
  from Cons.prems have "handle e s = s"
    by (cases e) (simp_all add: handler_simps)
  with Cons show ?case by simp
qed

text \<open>
  C3. A notifier tick that finds no fresh value latched changes nothing and sends nothing
  downstream. In particular: in a run from a new subscriber in which the source has not
  delivered a value yet, the downstream consumer has been sent nothing, whatever the
  notifier did; and of two ticks in a row, after any run, the second sends nothing, as
  does every notifier signal that follows a tick with no source value in between, so a
  latched value is sent at most once.
\<close>

theorem stale_tick_emits_nothing:
  "(\<not> hasValue s \<longrightarrow>
      handle (NotifierNext x) s = s \<and> emitted s (NotifierNext x) = [])
   \<and> ((\<forall>e \<in> set es. \<not> is_SourceNext e) \<longrightarrow>
        run (SampleSubscriber_new d) (es @ [NotifierNext x]) = SampleSubscriber_new d)
   \<and> emitted (run s (fs @ [NotifierNext x])) (NotifierNext y) = []
   \<and> run s (fs @ [NotifierNext x, NotifierNext y]) = run s (fs @ [NotifierNext x])
   \<and> ((\<forall>e \<in> set gs. \<not> is_SourceNext e) \<longrightarrow>
        run s (fs @ NotifierNext x # gs) = run s (fs @ [NotifierNext x]))"
proof (intro conjI impI)
  assume "\<not> hasValue s"
  then show "handle (NotifierNext x) s = s" by (rule stale_tick_noop)
next
  assume "\<not> hasValue s"
  then show "emitted s (NotifierNext x) = []" by (simp add: emitted_NotifierNext)
next
  assume "\<forall>e \<in> set es. \<not> is_SourceNext e"
  then have "\<forall>e \<in> set (es @ [NotifierNext x]). \<not> is_SourceNext e" by simp
  moreover have "\<not> hasValue (SampleSubscriber_new d)" by (simp add: SampleSubscriber_new_def)
  ultimately show "run (SampleSubscriber_new d) (es @ [NotifierNext x]) = SampleSubscriber_new d"
    by (rule run_without_source)
next
  have stale: "\<not> hasValue (run s (fs @ [NotifierNext x]))"
    by (simp only: run_snoc hasValue_after_tick not_False_eq_True)
  then show "emitted (run s (fs @ [NotifierNext x])) (NotifierNext y) = []"
    by (simp add: emitted_NotifierNext)
  have "run s (fs @ [NotifierNext x, NotifierNext y])
        = handle (NotifierNext y) (run s (fs @ [NotifierNext x]))"
    by (simp add: run_append)
  also from stale have "\<dots> = run s (fs @ [NotifierNext x])" by (rule stale_tick_noop)
  finally show "run s (fs @ [NotifierNext x, NotifierNext y]) = run s (fs @ [NotifierNext x])" .
next
  assume quiet: "\<forall>e \<in> set gs. \<not> is_SourceNext e"
  have stale: "\<not> hasValue (run s (fs @ [NotifierNext x]))"
    by (simp only: run_snoc hasValue_after_tick not_False_eq_True)
  have "run s (fs @ NotifierNext x # gs) = run (run s (fs @ [NotifierNext x])) gs"
    by (simp add: run_append)
  also from quiet stale have "\<dots> = run s (fs @ [NotifierNext x])"
    by (rule run_without_source)
  finally show "run s (fs @ NotifierNext x # gs) = run s (fs @ [NotifierNext x])" .
qed

theorem stale_tick_emits_nothing_witness:
  "\<not> hasValue (SampleSubscriber_new ([] :: (nat js_value, unit) notification list))
   \<and> handle (NotifierNext ()) (SampleSubscriber_new ([] :: (nat js_value, unit) notification list))
       = SampleSubscriber_new []
   \<and> \<not> is_SourceNext (NotifierComplete :: (nat, unit) signal)
   \<and> \<not> is_SourceNext (NotifierNext () :: (nat, unit) signal)
   \<and> run (SampleSubscriber_new ([] :: (nat js_value, unit) notification list))
        ([NotifierComplete, NotifierNext ()] @ [NotifierNext ()]) = SampleSubscriber_new []
   \<and> destination
        (run (SampleSubscriber_new ([] :: (nat js_value, unit) notification list))
           ([SourceNext (Defined 1)] @ NotifierNext () # [NotifierComplete, NotifierNext ()]))
       = [Next (Defined 1)]"
  using stale_tick_emits_nothing
    [of "SampleSubscriber_new ([] :: (nat js_value, unit) notification list)" "()"
        "[NotifierComplete, NotifierNext ()] :: (nat, unit) signal list"
        "[] :: (nat js_value, unit) notification list"
        "[SourceNext (Defined 1)] :: (nat, unit) signal list" "()"
        "[NotifierComplete, NotifierNext ()] :: (nat, unit) signal list"]
  by (simp add: SampleSubscriber_new_def handler_simps)

section \<open>The latch invariant\<close>

lemma latch_invariant_new: "latch_invariant (SampleSubscriber_new d) []"
  by (simp add: latch_invariant_def SampleSubscriber_new_def)

lemma latch_invariant_step:
  assumes "latch_invariant s h"
  shows "latch_invariant (handle e s) (track s e h)"
proof (cases e)
  case (SourceNext v)
  then show ?thesis
    by (simp add: latch_invariant_def track_def emitted_SourceNext SampleSubscriber_next_fields)
next
  case (NotifierNext x)
  with assms show ?thesis
    by (simp add: latch_invariant_def track_def emitted_NotifierNext handler_simps)
next
  case NotifierComplete
  with assms show ?thesis
    by (simp add: latch_invariant_def track_def emitted_NotifierComplete handler_simps)
qed

lemma latch_invariant_run:
  "latch_invariant s h \<Longrightarrow> latch_invariant (run s es) (received_since_emission s es h)"
proof (induction es arbitrary: s h)
  case Nil
  then show ?case by simp
next
  case (Cons e es)
  from Cons.prems have "latch_invariant (handle e s) (track s e h)"
    by (rule latch_invariant_step)
  then show ?case by (simp add: Cons.IH)
qed

lemma latch_invariant_latched: "latch_invariant s h \<Longrightarrow> latched s = most_recent h"
  by (cases h) (auto simp: latch_invariant_def latched_def most_recent_def)

lemma emitted_tick_latched:
  "emitted s (NotifierNext x) = (case latched s of None \<Rightarrow> [] | Some v \<Rightarrow> [Next v])"
  by (simp add: emitted_NotifierNext latched_def)

text \<open>
  C1. After any sequence of source values and notifier signals, a notifier tick sends
  the downstream consumer at most one next signal; it sends one exactly when a source
  value has been received since the previous emission (or since the start), and the
  signal then carries the most recent such value. After the source values
  \<open>v1\<close>, \<open>v2\<close>, \<open>v3\<close> a single tick sends \<open>v3\<close> and nothing else.
\<close>

theorem tick_emits_most_recent_value:
  "emitted (run (SampleSubscriber_new d) es) (NotifierNext x) =
     (case most_recent (received_since_emission (SampleSubscriber_new d) es []) of
        None \<Rightarrow> []
      | Some v \<Rightarrow> [Next v])
   \<and> length (emitted (run s es) (NotifierNext x)) \<le> 1
   \<and> destination (run (SampleSubscriber_new d)
        [SourceNext v1, SourceNext v2, SourceNext v3, NotifierNext x]) = d @ [Next v3]"
proof (intro conjI)
  have "latch_invariant (run (SampleSubscriber_new d) es)
          (received_since_emission (SampleSubscriber_new d) es [])"
    using latch_invariant_new by (rule latch_invariant_run)
  then have "latched (run (SampleSubscriber_new d) es)
             = most_recent (received_since_emission (SampleSubscriber_new d) es [])"
    by (rule latch_invariant_latched)
  then show "emitted (run (SampleSubscriber_new d) es) (NotifierNext x) =
     (case most_recent (received_since_emission (SampleSubscriber_new d) es []) of
        None \<Rightarrow> []
      | Some v \<Rightarrow> [Next v])"
    by (simp add: emitted_tick_latched)
next
  show "length (emitted (run s es) (NotifierNext x)) \<le> 1"
    by (simp add: emitted_NotifierNext)
next
  show "destination (run (SampleSubscriber_new d)
        [SourceNext v1, SourceNext v2, SourceNext v3, NotifierNext x]) = d @ [Next v3]"
    by (simp add: handler_simps SampleSubscriber_new_def)
qed

text \<open>
  C2. The invariant: \<open>hasValue\<close> is true exactly when a source value has been received
  since the start, or since the last emission, and has not been sent downstream yet;
  and when \<open>hasValue\<close> is true the field \<open>value\<close> is the most recent source value. It
  holds of a new subscriber, every handler preserves it, and so it holds after every run.
\<close>

theorem latch_invariant_holds:
  "latch_invariant (SampleSubscriber_new d) []
   \<and> (latch_invariant s h \<longrightarrow> latch_invariant (handle e s) (track s e h))
   \<and> latch_invariant (run (SampleSubscriber_new d) es)
        (received_since_emission (SampleSubscriber_new d) es [])"
proof (intro conjI impI)
  show "latch_invariant (SampleSubscriber_new d) []" by (rule latch_invariant_new)
next
  assume "latch_invariant s h"
  then show "latch_invariant (handle e s) (track s e h)" by (rule latch_invariant_step)
next
  show "latch_invariant (run (SampleSubscriber_new d) es)
          (received_since_emission (SampleSubscriber_new d) es [])"
    using latch_invariant_new by (rule latch_invariant_run)
qed

theorem latch_invariant_holds_witness:
  "latch_invariant
     (SampleSubscriber_next (Defined (2::nat))
        (SampleSubscriber_new ([] :: (nat js_value, unit) notification list)))
     [Defined 1, Defined 2]
   \<and> latch_invariant
       (handle (NotifierNext ())
          (SampleSubscriber_next (Defined (2::nat))
             (SampleSubscriber_new ([] :: (nat js_value, unit) notification list))))
       []"
  using latch_invariant_holds
    [of "[] :: (nat js_value, unit) notification list"
        "SampleSubscriber_next (Defined (2::nat))
           (SampleSubscriber_new ([] :: (nat js_value, unit) notification list))"
        "[Defined 1, Defined 2]" "NotifierNext ()" "[] :: (nat, unit) signal list"]
  by (simp add: latch_invariant_def track_def emitted_NotifierNext handler_simps)

section \<open>The notifier's completion\<close>

lemma length_emitted: "length (emitted s e) \<le> 1"
  by (cases e)
     (simp_all add: emitted_SourceNext emitted_NotifierNext emitted_NotifierComplete)

lemma length_completion_emitted:
  "length (completion_emitted s es) \<le> length (filter is_NotifierComplete es)"
proof (induction es arbitrary: s)
  case Nil
  show ?case by simp
next
  case (Cons e es)
  have "length (completion_emitted (handle e s) es) \<le> length (filter is_NotifierComplete es)"
    by (rule Cons.IH)
  moreover have "length (emitted s e) \<le> 1" by (rule length_emitted)
  ultimately show ?case by simp
qed

lemma sent_ended: "ended p \<Longrightarrow> sent p e = []"
  by (cases e) (simp_all add: sent_def SampleSubscriber_next_fields)

lemma ended_deliver: "ended p \<Longrightarrow> ended (deliver e p)"
  by (cases e) simp_all

lemma completion_sent_ended: "ended p \<Longrightarrow> completion_sent p es = []"
proof (induction es arbitrary: p)
  case Nil
  show ?case by simp
next
  case (Cons e es)
  from Cons.prems have "ended (deliver e p)" by (rule ended_deliver)
  then have "completion_sent (deliver e p) es = []" by (rule Cons.IH)
  moreover from Cons.prems have "sent p e = []" by (rule sent_ended)
  ultimately show ?case by simp
qed

lemma length_sent_NotifierComplete: "length (sent p NotifierComplete) \<le> 1"
  by (simp add: sent_def handler_simps)

lemma length_completion_sent: "length (completion_sent p es) \<le> 1"
proof (induction es arbitrary: p)
  case Nil
  show ?case by simp
next
  case (Cons e es)
  show ?case
  proof (cases e)
    case (SourceNext v)
    with Cons.IH [of "deliver e p"] show ?thesis by simp
  next
    case (NotifierNext x)
    with Cons.IH [of "deliver e p"] show ?thesis by simp
  next
    case NotifierComplete
    show ?thesis
    proof (cases "ended p")
      case True
      then have "completion_sent p (e # es) = []" by (rule completion_sent_ended)
      then show ?thesis by simp
    next
      case False
      with NotifierComplete have "ended (deliver e p)" by simp
      then have "completion_sent (deliver e p) es = []" by (rule completion_sent_ended)
      with NotifierComplete length_sent_NotifierComplete [of p] show ?thesis by simp
    qed
  qed
qed

text \<open>
  C4. The handler of the notifier's completion is the handler of a notifier tick: both
  run the emission routine and nothing else, whatever the consumer does. So a completion
  flushes: when \<open>hasValue\<close> is true it clears the flag and sends the latched value
  downstream as one next signal, and when \<open>hasValue\<close> is false it does nothing, exactly
  as a tick would. Each completion handled sends at most one next signal; and since the
  notifier's subscription ends with its completion, at most one next signal of a whole
  subscription is sent by a completion, whatever the two producers deliver.
\<close>

theorem completion_behaves_like_tick:
  "notifyComplete dnext s = notifyNext dnext s
   \<and> notifyComplete dnext s =
       (if hasValue s then dnext (value s) (s\<lparr>hasValue := False\<rparr>) else s)
   \<and> handle NotifierComplete s = handle (NotifierNext x) s
   \<and> handle NotifierComplete s =
       (if hasValue s
        then s\<lparr>hasValue := False, destination := destination s @ [Next (value s)]\<rparr>
        else s)
   \<and> emitted s NotifierComplete = (if hasValue s then [Next (value s)] else [])
   \<and> emitted s (NotifierNext x) = (if hasValue s then [Next (value s)] else [])
   \<and> length (completion_emitted s es) \<le> length (filter is_NotifierComplete es)
   \<and> length (completion_sent p fs) \<le> 1"
proof (intro conjI)
  show "notifyComplete dnext s = notifyNext dnext s"
    by (simp add: notifyComplete_def notifyNext_def)
  show "notifyComplete dnext s =
       (if hasValue s then dnext (value s) (s\<lparr>hasValue := False\<rparr>) else s)"
    by (simp add: notifyComplete_def emitValue_def Let_def)
  show "handle NotifierComplete s = handle (NotifierNext x) s"
    by (simp add: notifyComplete_def notifyNext_def)
  show "handle NotifierComplete s =
       (if hasValue s
        then s\<lparr>hasValue := False, destination := destination s @ [Next (value s)]\<rparr>
        else s)"
    by (simp add: handler_simps)
  show "emitted s NotifierComplete = (if hasValue s then [Next (value s)] else [])"
    by (rule emitted_NotifierComplete)
  show "emitted s (NotifierNext x) = (if hasValue s then [Next (value s)] else [])"
    by (rule emitted_NotifierNext)
  show "length (completion_emitted s es) \<le> length (filter is_NotifierComplete es)"
    by (rule length_completion_emitted)
  show "length (completion_sent p fs) \<le> 1"
    by (rule length_completion_sent)
qed

theorem completion_behaves_like_tick_witness:
  "handle NotifierComplete
     (SampleSubscriber_next (Defined (1::nat))
        (SampleSubscriber_new ([] :: (nat js_value, unit) notification list)))
     = \<lparr>value = Defined 1, hasValue = False, destination = [Next (Defined 1)]\<rparr>
   \<and> emitted
       (SampleSubscriber_next (Defined (1::nat))
          (SampleSubscriber_new ([] :: (nat js_value, unit) notification list)))
       (NotifierComplete :: (nat, unit) signal)
     = [Next (Defined 1)]
   \<and> completion_sent (inner_subscription_new ([] :: (nat js_value, unit) notification list))
       ([SourceNext (Defined 1), NotifierComplete, SourceNext (Defined 2), NotifierComplete,
         NotifierNext ()] :: (nat, unit) signal list)
     = [Next (Defined 1)]
   \<and> destination (parent
       (deliver_all (inner_subscription_new ([] :: (nat js_value, unit) notification list))
          ([SourceNext (Defined 1), NotifierComplete, SourceNext (Defined 2), NotifierComplete,
            NotifierNext ()] :: (nat, unit) signal list)))
     = [Next (Defined 1)]"
  using completion_behaves_like_tick
    [of destination_next
        "SampleSubscriber_next (Defined (1::nat))
           (SampleSubscriber_new ([] :: (nat js_value, unit) notification list))"
        "()" "[] :: (nat, unit) signal list"
        "inner_subscription_new ([] :: (nat js_value, unit) notification list)"
        "[SourceNext (Defined 1), NotifierComplete, SourceNext (Defined 2), NotifierComplete,
          NotifierNext ()] :: (nat, unit) signal list"]
  by (simp add: sent_def inner_subscription_new_def SampleSubscriber_new_def
        SampleSubscriber_next_def emitted_def destination_next_def handler_simps)

section \<open>Order inside the emission routine\<close>

lemma reentrant_consumer_stale:
  "\<not> hasValue s \<Longrightarrow> reentrant_consumer n v s = destination_next v s"
  by (cases n) (simp_all add: notifyNext_def emitValue_def destination_next_def)

text \<open>
  C6. When the emission routine forwards a value, the consumer's \<open>next\<close> is called on a
  subscriber whose \<open>hasValue\<close> is already false. So a notifier tick that the consumer
  causes from inside that call does nothing, whatever the consumer of that tick would
  do, and a consumer that ticks the notifier from inside its \<open>next\<close>, to any depth, is
  sent the value once.
\<close>

theorem flag_cleared_before_forwarding:
  "hasValue s \<longrightarrow>
     emitValue dnext s = dnext (value s) (s\<lparr>hasValue := False\<rparr>)
     \<and> \<not> hasValue (s\<lparr>hasValue := False\<rparr>)
     \<and> notifyNext dnext' (destination_next (value s) (s\<lparr>hasValue := False\<rparr>))
         = destination_next (value s) (s\<lparr>hasValue := False\<rparr>)
     \<and> emitValue (reentrant_consumer n) s = destination_next (value s) (s\<lparr>hasValue := False\<rparr>)
     \<and> destination (emitValue (reentrant_consumer n) s) = destination s @ [Next (value s)]"
proof (intro impI conjI)
  assume fresh: "hasValue s"
  then show "emitValue dnext s = dnext (value s) (s\<lparr>hasValue := False\<rparr>)"
    by (simp add: emitValue_def Let_def)
  show "\<not> hasValue (s\<lparr>hasValue := False\<rparr>)" by simp
  show "notifyNext dnext' (destination_next (value s) (s\<lparr>hasValue := False\<rparr>))
         = destination_next (value s) (s\<lparr>hasValue := False\<rparr>)"
    by (simp add: notifyNext_def emitValue_def destination_next_def)
  from fresh have "emitValue (reentrant_consumer n) s
        = reentrant_consumer n (value s) (s\<lparr>hasValue := False\<rparr>)"
    by (simp add: emitValue_def Let_def)
  also have "\<dots> = destination_next (value s) (s\<lparr>hasValue := False\<rparr>)"
    by (rule reentrant_consumer_stale) simp
  finally show reentrant:
    "emitValue (reentrant_consumer n) s = destination_next (value s) (s\<lparr>hasValue := False\<rparr>)" .
  show "destination (emitValue (reentrant_consumer n) s) = destination s @ [Next (value s)]"
    by (simp add: reentrant destination_next_def)
qed

theorem flag_cleared_before_forwarding_witness:
  "hasValue
     (SampleSubscriber_next (Defined (7::nat))
        (SampleSubscriber_new ([] :: (nat js_value, unit) notification list)))
   \<and> destination
       (emitValue (reentrant_consumer 3)
          (SampleSubscriber_next (Defined (7::nat))
             (SampleSubscriber_new ([] :: (nat js_value, unit) notification list))))
     = [Next (Defined 7)]"
  using flag_cleared_before_forwarding
    [of "SampleSubscriber_next (Defined (7::nat))
           (SampleSubscriber_new ([] :: (nat js_value, unit) notification list))"
        destination_next destination_next 3]
  by (simp add: SampleSubscriber_next_def SampleSubscriber_new_def destination_next_def)

section \<open>The notifier's values are not looked at\<close>

lemma handle_erase: "handle (erase e) s = handle e s"
  by (cases e) simp_all

lemma run_erase: "run s (map erase es) = run s es"
  by (induction es arbitrary: s) (simp_all add: handle_erase)

text \<open>
  C8. Two runs from the same state whose signals differ only in the values the notifier
  carried (the same signals in the same order once those values are removed) end in the
  same state; in particular the downstream consumer is sent the same signals. The two
  notifiers may even have different element types.
\<close>

theorem notifier_values_are_discarded:
  assumes "map erase es = map erase es'"
  shows "run s es = run s es' \<and> destination (run s es) = destination (run s es')"
proof -
  have "run s es = run s (map erase es)" by (simp only: run_erase)
  also have "\<dots> = run s (map erase es')" by (simp only: assms)
  also have "\<dots> = run s es'" by (simp only: run_erase)
  finally show ?thesis by simp
qed

theorem notifier_values_are_discarded_witness:
  "map erase ([SourceNext (Defined (1::nat)), NotifierNext (5::nat), NotifierComplete])
     = map erase [SourceNext (Defined (1::nat)), NotifierNext True, NotifierComplete]
   \<and> destination
       (run (SampleSubscriber_new ([] :: (nat js_value, unit) notification list))
          [SourceNext (Defined (1::nat)), NotifierNext (5::nat), NotifierComplete])
     = destination
         (run (SampleSubscriber_new ([] :: (nat js_value, unit) notification list))
            [SourceNext (Defined (1::nat)), NotifierNext True, NotifierComplete])"
proof -
  have same: "map erase ([SourceNext (Defined (1::nat)), NotifierNext (5::nat), NotifierComplete])
     = map erase [SourceNext (Defined (1::nat)), NotifierNext True, NotifierComplete]"
    by simp
  from notifier_values_are_discarded [OF same] same show ?thesis by simp
qed

section \<open>The flag alone gates the emission\<close>

lemma handle_agree:
  assumes "hasValue s = hasValue t" and "destination s = destination t"
    and "hasValue s \<Longrightarrow> value s = value t"
  shows "hasValue (handle e s) = hasValue (handle e t)
    \<and> destination (handle e s) = destination (handle e t)
    \<and> (hasValue (handle e s) \<longrightarrow> value (handle e s) = value (handle e t))"
  using assms by (cases e) (simp_all add: handler_simps)

lemma run_agree:
  "hasValue s = hasValue t \<Longrightarrow> destination s = destination t \<Longrightarrow>
   (hasValue s \<Longrightarrow> value s = value t) \<Longrightarrow>
   destination (run s es) = destination (run t es)"
proof (induction es arbitrary: s t)
  case Nil
  then show ?case by simp
next
  case (Cons e es)
  from Cons.prems have step:
    "hasValue (handle e s) = hasValue (handle e t)
     \<and> destination (handle e s) = destination (handle e t)
     \<and> (hasValue (handle e s) \<longrightarrow> value (handle e s) = value (handle e t))"
    by (rule handle_agree)
  have "destination (run (handle e s) es) = destination (run (handle e t) es)"
    using step by (intro Cons.IH) simp_all
  then show ?case by simp
qed

text \<open>
  C10. Emission is decided by \<open>hasValue\<close> alone. A source value is latched whatever it
  is, \<^verbatim>\<open>undefined\<close> and \<^verbatim>\<open>null\<close> included, and the next notifier tick sends it
  downstream as it is. The emission routine clears the flag and leaves the field \<open>value\<close>
  as it was; what is left there cannot be seen downstream: while the flag is false, the
  signals sent downstream in any run do not depend on the content of the field.
\<close>

theorem emission_gated_by_flag_only:
  "emitted (handle (SourceNext v) s) (NotifierNext x) = [Next v]
   \<and> destination (run s [SourceNext Undefined, NotifierNext x]) = destination s @ [Next Undefined]
   \<and> destination (run s [SourceNext Null, NotifierNext x]) = destination s @ [Next Null]
   \<and> value (emitValue destination_next s) = value s
   \<and> \<not> hasValue (emitValue destination_next s)
   \<and> (\<not> hasValue s \<longrightarrow> destination (run (s\<lparr>value := w\<rparr>) es) = destination (run s es))"
proof (intro conjI impI)
  show "emitted (handle (SourceNext v) s) (NotifierNext x) = [Next v]"
    by (simp add: emitted_NotifierNext SampleSubscriber_next_fields)
  show "destination (run s [SourceNext Undefined, NotifierNext x]) = destination s @ [Next Undefined]"
    by (simp add: handler_simps)
  show "destination (run s [SourceNext Null, NotifierNext x]) = destination s @ [Next Null]"
    by (simp add: handler_simps)
  show "value (emitValue destination_next s) = value s"
    by (simp add: emitValue_recording)
  show "\<not> hasValue (emitValue destination_next s)"
    by (simp add: emitValue_recording)
next
  assume "\<not> hasValue s"
  then show "destination (run (s\<lparr>value := w\<rparr>) es) = destination (run s es)"
    by (intro run_agree) simp_all
qed

theorem emission_gated_by_flag_only_witness:
  "\<not> hasValue (SampleSubscriber_new ([] :: (nat js_value, unit) notification list))
   \<and> destination
       (run ((SampleSubscriber_new ([] :: (nat js_value, unit) notification list))
               \<lparr>value := Defined 9\<rparr>)
          [NotifierNext (), SourceNext Undefined, NotifierNext ()])
     = [Next Undefined]"
  using emission_gated_by_flag_only
    [of Undefined "SampleSubscriber_new ([] :: (nat js_value, unit) notification list)" "()"
        "Defined 9" "[NotifierNext (), SourceNext Undefined, NotifierNext ()]"]
  by (simp add: SampleSubscriber_new_def handler_simps)

section \<open>Errors and the source's completion: properties\<close>

lemma run_all_terminated: "terminated c \<Longrightarrow> run_all td c evs = c"
  by (induction evs) (simp_all add: step_def)

lemma step_Complete_fields:
  "hasValue (subscriber (step td (Source Complete) c)) = hasValue (subscriber c)"
  "value (subscriber (step td (Source Complete) c)) = value (subscriber c)"
  "filter is_Next (destination (subscriber (step td (Source Complete) c)))
     = filter is_Next (destination (subscriber c))"
  by (simp_all add: step_def destination_complete_def)

lemma step_no_trigger:
  "\<not> is_trigger ev \<Longrightarrow>
   filter is_Next (destination (subscriber (step td ev c)))
     = filter is_Next (destination (subscriber c))"
  by (cases "(td, ev, c)" rule: dispatch.cases)
     (simp_all add: step_def destination_complete_def destination_error_def
        SampleSubscriber_next_fields)

lemma observed_no_trigger:
  "\<forall>ev \<in> set evs. \<not> is_trigger ev \<Longrightarrow>
   filter is_Next (observed td c evs) = filter is_Next (destination (subscriber c))"
proof (induction evs arbitrary: c)
  case Nil
  show ?case by (simp add: observed_def)
next
  case (Cons ev evs)
  from Cons.prems have "\<not> is_trigger ev" and rest: "\<forall>ev \<in> set evs. \<not> is_trigger ev"
    by simp_all
  have "filter is_Next (observed td c (ev # evs))
        = filter is_Next (observed td (step td ev c) evs)"
    by (simp add: observed_def)
  also from rest have "\<dots> = filter is_Next (destination (subscriber (step td ev c)))"
    by (rule Cons.IH)
  also from \<open>\<not> is_trigger ev\<close> have "\<dots> = filter is_Next (destination (subscriber c))"
    by (rule step_no_trigger)
  finally show ?case .
qed

text \<open>
  C7. Handling the source's completion does not run the emission routine: it leaves
  \<open>hasValue\<close> and \<open>value\<close> as they were and sends no next signal downstream. A value
  latched when the source completes is sent downstream by no later signal other than a
  notifier tick or the notifier's completion: in a run that goes on from the source's
  completion without either, the next signals the consumer has been sent are the ones
  it had been sent before. This holds whether or not the source's completion tears the
  subscription down.
\<close>

theorem source_completion_does_not_flush:
  "hasValue (subscriber (step td (Source Complete) c)) = hasValue (subscriber c)
   \<and> value (subscriber (step td (Source Complete) c)) = value (subscriber c)
   \<and> filter is_Next (observed td c [Source Complete])
       = filter is_Next (destination (subscriber c))
   \<and> ((\<forall>ev \<in> set evs. \<not> is_trigger ev) \<longrightarrow>
        filter is_Next (observed td c (Source Complete # evs))
          = filter is_Next (destination (subscriber c)))"
proof (intro conjI impI)
  show "hasValue (subscriber (step td (Source Complete) c)) = hasValue (subscriber c)"
    by (rule step_Complete_fields)
  show "value (subscriber (step td (Source Complete) c)) = value (subscriber c)"
    by (rule step_Complete_fields)
  show "filter is_Next (observed td c [Source Complete])
       = filter is_Next (destination (subscriber c))"
    by (simp add: observed_def step_Complete_fields)
next
  assume "\<forall>ev \<in> set evs. \<not> is_trigger ev"
  then have "\<forall>ev \<in> set (Source Complete # evs). \<not> is_trigger ev" by simp
  then show "filter is_Next (observed td c (Source Complete # evs))
          = filter is_Next (destination (subscriber c))"
    by (rule observed_no_trigger)
qed

theorem source_completion_does_not_flush_witness:
  "hasValue (subscriber
     (step False (Source (Next (Defined (1::nat))) :: (nat, unit, unit) upstream)
        (combinator_new ([] :: (nat js_value, unit) notification list))))
   \<and> \<not> is_trigger (Source (Next (Defined 2)) :: (nat, unit, unit) upstream)
   \<and> \<not> is_trigger (Notifier (Error ()) :: (nat, unit, unit) upstream)
   \<and> filter is_Next
       (observed False
          (step False (Source (Next (Defined (1::nat))) :: (nat, unit, unit) upstream)
             (combinator_new ([] :: (nat js_value, unit) notification list)))
          ([Source Complete, Source (Next (Defined 2)), Notifier (Error ())]
             :: (nat, unit, unit) upstream list))
     = []"
  using source_completion_does_not_flush
    [of False
        "step False (Source (Next (Defined (1::nat))) :: (nat, unit, unit) upstream)
           (combinator_new ([] :: (nat js_value, unit) notification list))"
        "[Source (Next (Defined 2)), Notifier (Error ())] :: (nat, unit, unit) upstream list"]
  by (simp add: step_def combinator_new_def SampleSubscriber_new_def
        SampleSubscriber_next_def observed_def destination_complete_def
        destination_error_def)

lemma terminated_after_error:
  "terminated (step td (Source (Error err)) c)"
  "terminated (step td (Notifier (Error err)) c)"
  by (simp_all add: step_def)

lemma observed_after_termination:
  "terminated c \<Longrightarrow> observed td c evs = destination (subscriber c)"
  by (simp add: observed_def run_all_terminated)

lemma observed_Cons: "observed td c (ev # evs) = observed td (step td ev c) evs"
  by (simp add: observed_def)

lemma error_origin_step:
  "Error err \<in> set (destination (subscriber (step td ev c))) \<Longrightarrow>
   Error err \<in> set (destination (subscriber c)) \<or> ev = Source (Error err) \<or> ev = Notifier (Error err)"
  by (cases "(td, ev, c)" rule: dispatch.cases)
     (auto simp: step_def destination_complete_def destination_error_def handler_simps
        split: if_splits)

lemma error_origin:
  "Error err \<in> set (observed td c evs) \<Longrightarrow>
   Error err \<in> set (destination (subscriber c))
   \<or> Source (Error err) \<in> set evs \<or> Notifier (Error err) \<in> set evs"
proof (induction evs arbitrary: c)
  case Nil
  then show ?case by (simp add: observed_def)
next
  case (Cons ev evs)
  from Cons.prems have "Error err \<in> set (observed td (step td ev c) evs)"
    by (simp only: observed_Cons)
  then have "Error err \<in> set (destination (subscriber (step td ev c)))
      \<or> Source (Error err) \<in> set evs \<or> Notifier (Error err) \<in> set evs"
    by (rule Cons.IH)
  then show ?case
  proof (elim disjE)
    assume "Error err \<in> set (destination (subscriber (step td ev c)))"
    then have "Error err \<in> set (destination (subscriber c))
        \<or> ev = Source (Error err) \<or> ev = Notifier (Error err)"
      by (rule error_origin_step)
    then show ?thesis by auto
  next
    assume "Source (Error err) \<in> set evs"
    then show ?thesis by simp
  next
    assume "Notifier (Error err) \<in> set evs"
    then show ?thesis by simp
  qed
qed

text \<open>
  C9. An error from the source or from the notifier, arriving at a combinator that has
  not terminated, is sent downstream at once, as the one signal of that step and
  carrying the same error value, and terminates the combinator. Whatever the two
  producers deliver after an error, the downstream consumer is sent nothing more: no
  next signal, no completion, no second error. Every error the downstream consumer of
  a new combinator is sent is an error one of the two producers delivered.
\<close>

theorem upstream_error_is_forwarded_and_final:
  fixes evs :: "('a, 'n, 'e) upstream list"
  shows
  "(\<not> terminated c \<longrightarrow>
      observed td c ([Source (Error err)] :: ('a, 'n, 'e) upstream list)
        = destination (subscriber c) @ [Error err]
      \<and> observed td c ([Notifier (Error err)] :: ('a, 'n, 'e) upstream list)
        = destination (subscriber c) @ [Error err])
   \<and> terminated (step td (Source (Error err) :: ('a, 'n, 'e) upstream) c)
   \<and> terminated (step td (Notifier (Error err) :: ('a, 'n, 'e) upstream) c)
   \<and> observed td c (Source (Error err) # evs) = observed td c [Source (Error err) :: ('a, 'n, 'e) upstream]
   \<and> observed td c (Notifier (Error err) # evs) = observed td c [Notifier (Error err) :: ('a, 'n, 'e) upstream]
   \<and> (Error err' \<in> set (observed td (combinator_new []) evs) \<longrightarrow>
        Source (Error err') \<in> set evs \<or> Notifier (Error err') \<in> set evs)"
proof (intro conjI impI)
  assume "\<not> terminated c"
  then show "observed td c ([Source (Error err)] :: ('a, 'n, 'e) upstream list)
        = destination (subscriber c) @ [Error err]"
    by (simp add: observed_def step_def destination_error_def)
next
  assume "\<not> terminated c"
  then show "observed td c ([Notifier (Error err)] :: ('a, 'n, 'e) upstream list)
        = destination (subscriber c) @ [Error err]"
    by (simp add: observed_def step_def destination_error_def)
next
  show "terminated (step td (Source (Error err) :: ('a, 'n, 'e) upstream) c)"
    by (rule terminated_after_error)
next
  show "terminated (step td (Notifier (Error err) :: ('a, 'n, 'e) upstream) c)"
    by (rule terminated_after_error)
next
  show "observed td c (Source (Error err) # evs)
        = observed td c [Source (Error err) :: ('a, 'n, 'e) upstream]"
    by (simp only: observed_Cons observed_after_termination terminated_after_error)
next
  show "observed td c (Notifier (Error err) # evs)
        = observed td c [Notifier (Error err) :: ('a, 'n, 'e) upstream]"
    by (simp only: observed_Cons observed_after_termination terminated_after_error)
next
  assume "Error err' \<in> set (observed td (combinator_new []) evs)"
  from error_origin [OF this]
  show "Source (Error err') \<in> set evs \<or> Notifier (Error err') \<in> set evs"
    by (simp add: combinator_new_def SampleSubscriber_new_def)
qed

theorem upstream_error_is_forwarded_and_final_witness:
  "\<not> terminated (combinator_new ([] :: (nat js_value, nat) notification list))
   \<and> observed True (combinator_new ([] :: (nat js_value, nat) notification list))
       ([Source (Error 7), Source (Next (Defined 1)), Notifier (Error 42), Notifier (Next ()),
         Source Complete] :: (nat, unit, nat) upstream list)
     = [Error 7]
   \<and> Error 42 \<in> set (observed True (combinator_new ([] :: (nat js_value, nat) notification list))
       ([Source (Next (Defined 1)), Notifier (Error 42), Notifier (Next ()),
         Source Complete] :: (nat, unit, nat) upstream list))
   \<and> Notifier (Error 42) \<in> set
       ([Source (Next (Defined 1)), Notifier (Error 42), Notifier (Next ()),
         Source Complete] :: (nat, unit, nat) upstream list)"
  using upstream_error_is_forwarded_and_final
    [of "combinator_new ([] :: (nat js_value, nat) notification list)" True 7
        "[Source (Next (Defined 1)), Notifier (Error 42), Notifier (Next ()),
          Source Complete] :: (nat, unit, nat) upstream list" 42]
  by (simp add: step_def combinator_new_def SampleSubscriber_new_def
        SampleSubscriber_next_def observed_def destination_complete_def
        destination_error_def)

section \<open>Subscription order\<close>

lemma run_all_append: "run_all td c (evs @ fvs) = run_all td (run_all td c evs) fvs"
  by (induction evs arbitrary: c) simp_all

lemma call_unfold:
  "call td d src ntf =
     run_all td (run_all td (combinator_new d) (map Source src :: ('a, 'n, 'e) upstream list))
       (map Notifier (ntf :: ('n, 'e) notification list))"
  by (simp add: call_def)

lemma is_SourceValue_Source: "is_SourceValue (Source m) = is_Next m"
  by (cases m) simp_all

lemma step_without_source_value:
  assumes "\<not> hasValue (subscriber c)" and "\<not> is_SourceValue ev"
  shows "\<not> hasValue (subscriber (step td ev c))
    \<and> filter is_Next (destination (subscriber (step td ev c)))
        = filter is_Next (destination (subscriber c))"
  using assms
  by (cases "(td, ev, c)" rule: dispatch.cases)
     (simp_all add: step_def destination_complete_def destination_error_def handler_simps)

lemma run_all_without_source_value:
  "\<not> hasValue (subscriber c) \<Longrightarrow> \<forall>ev \<in> set evs. \<not> is_SourceValue ev \<Longrightarrow>
   \<not> hasValue (subscriber (run_all td c evs))
   \<and> filter is_Next (destination (subscriber (run_all td c evs)))
       = filter is_Next (destination (subscriber c))"
proof (induction evs arbitrary: c)
  case Nil
  then show ?case by simp
next
  case (Cons ev evs)
  from Cons.prems have "\<not> is_SourceValue ev" and rest: "\<forall>ev \<in> set evs. \<not> is_SourceValue ev"
    by simp_all
  with Cons.prems(1) have one:
    "\<not> hasValue (subscriber (step td ev c))
     \<and> filter is_Next (destination (subscriber (step td ev c)))
         = filter is_Next (destination (subscriber c))"
    by (intro step_without_source_value)
  then have "\<not> hasValue (subscriber (step td ev c))" by simp
  from Cons.IH [OF this rest] one show ?case by simp
qed

lemma new_without_source_value:
  assumes "\<forall>ev \<in> set evs. \<not> is_SourceValue ev"
  shows "\<not> hasValue (subscriber (run_all td (combinator_new d) evs))
    \<and> filter is_Next (destination (subscriber (run_all td (combinator_new d) evs)))
        = filter is_Next d"
proof -
  have "\<not> hasValue (subscriber (combinator_new d))"
    by (simp add: combinator_new_def SampleSubscriber_new_def)
  from run_all_without_source_value [OF this assms, of td]
  show ?thesis by (simp add: combinator_new_def SampleSubscriber_new_def)
qed

text \<open>
  The source \<^verbatim>\<open>of(1)\<close> delivers 1 and completes inside \<^verbatim>\<open>source.subscribe\<close>. When the
  completion tears the subscription down, as it does in the repository, a notifier that
  ticks synchronously afterwards is not heard: the downstream consumer is sent the
  completion only.
\<close>

lemma call_source_completes_synchronously:
  "destination (subscriber
     (call True ([] :: (nat js_value, unit) notification list)
        [Next (Defined 1), Complete] ([Next ()] :: (unit, unit) notification list)))
   = [Complete]"
  by (simp add: call_def step_def combinator_new_def SampleSubscriber_new_def
        SampleSubscriber_next_def destination_complete_def)

text \<open>
  C5, as the code has it. The subscriber is subscribed to the source before the notifier
  is subscribed to. So a notifier that emits synchronously when subscribed to finds what
  the source did synchronously during its own subscription. Provided the source
  delivered no value by then, the notifier is subscribed to with \<open>hasValue\<close> false, every
  one of its synchronous signals leaves \<open>hasValue\<close> false, and no next signal is sent
  downstream. In no run is a next signal sent downstream before the source has delivered
  a value.
\<close>

theorem source_subscribed_before_notifier:
  "call td d src ntf =
     run_all td (run_all td (combinator_new d) (map Source src :: ('a, 'n, 'e) upstream list))
       (map Notifier (ntf :: ('n, 'e) notification list))
   \<and> ((\<forall>m \<in> set src. \<not> is_Next m) \<longrightarrow>
        \<not> hasValue (subscriber (call td d src ([] :: ('n, 'e) notification list)))
        \<and> \<not> hasValue (subscriber (call td d src ntf))
        \<and> filter is_Next (destination (subscriber (call td d src ntf))) = filter is_Next d)
   \<and> ((\<forall>ev \<in> set evs. \<not> is_SourceValue ev) \<longrightarrow>
        filter is_Next (observed td (combinator_new d) evs) = filter is_Next d)"
proof (intro conjI impI)
  show "call td d src ntf =
     run_all td (run_all td (combinator_new d) (map Source src :: ('a, 'n, 'e) upstream list))
       (map Notifier ntf)"
    by (rule call_unfold)
next
  assume quiet: "\<forall>m \<in> set src. \<not> is_Next m"
  have whole: "call td d src ms =
      run_all td (combinator_new d)
        ((map Source src :: ('a, 'n, 'e) upstream list) @ map Notifier ms)"
    for ms :: "('n, 'e) notification list"
    by (simp add: call_unfold run_all_append)
  have none: "\<forall>ev \<in> set ((map Source src :: ('a, 'n, 'e) upstream list) @ map Notifier ms).
      \<not> is_SourceValue ev"
    for ms :: "('n, 'e) notification list"
    using quiet by (auto simp: is_SourceValue_Source)
  from new_without_source_value [OF none, of td d "[]"]
  show "\<not> hasValue (subscriber (call td d src ([] :: ('n, 'e) notification list)))"
    by (simp add: whole)
  from new_without_source_value [OF none, of td d ntf]
  show "\<not> hasValue (subscriber (call td d src ntf))"
    by (simp add: whole)
  from new_without_source_value [OF none, of td d ntf]
  show "filter is_Next (destination (subscriber (call td d src ntf))) = filter is_Next d"
    by (simp add: whole)
next
  assume "\<forall>ev \<in> set evs. \<not> is_SourceValue ev"
  from new_without_source_value [OF this, of td d]
  show "filter is_Next (observed td (combinator_new d) evs) = filter is_Next d"
    by (simp add: observed_def)
qed

theorem source_subscribed_before_notifier_witness:
  "\<not> is_Next (Complete :: (nat js_value, unit) notification)
   \<and> \<not> hasValue (subscriber
        (call True ([] :: (nat js_value, unit) notification list) [Complete]
           ([Next (), Complete] :: (unit, unit) notification list)))
   \<and> destination (subscriber
        (call True ([] :: (nat js_value, unit) notification list) [Complete]
           ([Next (), Complete] :: (unit, unit) notification list)))
       = [Complete]
   \<and> \<not> is_SourceValue (Notifier (Next ()) :: (nat, unit, unit) upstream)
   \<and> \<not> is_SourceValue (Notifier Complete :: (nat, unit, unit) upstream)
   \<and> \<not> is_SourceValue (Source Complete :: (nat, unit, unit) upstream)
   \<and> filter is_Next
        (observed False (combinator_new ([] :: (nat js_value, unit) notification list))
           ([Notifier (Next ()), Notifier Complete, Source Complete, Notifier (Next ())]
              :: (nat, unit, unit) upstream list))
       = []"
  using source_subscribed_before_notifier
    [of True "[] :: (nat js_value, unit) notification list" "[Complete]"
        "[Next (), Complete] :: (unit, unit) notification list"
        "[Notifier (Next ()), Notifier Complete, Source Complete, Notifier (Next ())]
           :: (nat, unit, unit) upstream list"]
    source_subscribed_before_notifier
    [of False "[] :: (nat js_value, unit) notification list" "[]"
        "[] :: (unit, unit) notification list"
        "[Notifier (Next ()), Notifier Complete, Source Complete, Notifier (Next ())]
           :: (nat, unit, unit) upstream list"]
  by (simp add: call_def step_def observed_def combinator_new_def SampleSubscriber_new_def
        destination_complete_def handler_simps)

text \<open>
  C5, as the claim has it, fails: a source that delivers the value 1 synchronously when
  subscribed to, and stays open, has set \<open>hasValue\<close> by the time the notifier is
  subscribed to, and a notifier that ticks synchronously then sends that value
  downstream.
\<close>

theorem synchronous_notifier_finds_latched_value:
  "hasValue (subscriber
     (call True ([] :: (nat js_value, unit) notification list) [Next (Defined 1)]
        ([] :: (unit, unit) notification list)))
   \<and> destination (subscriber
       (call True ([] :: (nat js_value, unit) notification list) [Next (Defined 1)]
          ([Next ()] :: (unit, unit) notification list)))
     = [Next (Defined 1)]"
  by (simp add: call_def step_def combinator_new_def SampleSubscriber_new_def
        SampleSubscriber_next_def handler_simps)

end
